theory Spec2Isabelle
  imports Main
begin

section \<open>The configuration module \<open>environment.ts\<close>\<close>

text \<open>
  The module consists of one declaration,
  \<^verbatim>\<open>export const environment = { production: false, apiServerUrl: "...", auth0: { ... } };\<close>
  an object literal whose property values are a boolean literal, string literals and
  one nested object literal. There are no calls, no getters, no computed keys and no
  spread elements.
\<close>

subsection \<open>JavaScript values\<close>

text \<open>
  The values an object literal of this module can hold, and \<open>undefined\<close>, which is what
  reading an absent property yields. An object is the list of its own enumerable
  properties in insertion order, which is the order \<open>Object.keys\<close> and
  \<open>JSON.stringify\<close> use for property names that are not array indices; the module
  has no property named by a number.
\<close>

datatype jsval =
    JUndefined
  | JBool bool
  | JStr string
  | JObj "(string \<times> jsval) list"

text \<open>The literal of the source, property by property, in the order it is written.\<close>

definition environment :: jsval where
  "environment =
     JObj [
       (''production'', JBool False),
       (''apiServerUrl'', JStr ''http://127.0.0.1:5000''),
       (''auth0'', JObj [
          (''url'', JStr ''dev-ya94ppfc.us''),
          (''audience'', JStr ''drinks''),
          (''clientId'', JStr ''Vna6pHZHZ9P1dvOeq6POJ2WB8lBsfY8G''),
          (''callbackURL'', JStr ''http://localhost:8100'')])]"

text \<open>\<open>Object.keys\<close>: the names of the own properties, in insertion order.\<close>

fun keys :: "jsval \<Rightarrow> string list" where
  "keys (JObj ps) = map fst ps"
| "keys _ = []"

subsection \<open>Static types\<close>

text \<open>
  The type TypeScript infers for a \<open>const\<close> initialised with an object literal:
  property types are widened, \<open>false\<close> to \<open>boolean\<close> and a string literal to \<open>string\<close>,
  and an object literal has the object type of its properties.
\<close>

datatype jstype =
    TUndefined
  | TBoolean
  | TString
  | TObject "(string \<times> jstype) list"

fun type_of :: "jsval \<Rightarrow> jstype" where
  "type_of JUndefined = TUndefined"
| "type_of (JBool b) = TBoolean"
| "type_of (JStr s) = TString"
| "type_of (JObj ps) = TObject (map (\<lambda>kv. (fst kv, type_of (snd kv))) ps)"

subsection \<open>Reading properties\<close>

text \<open>
  Member access \<open>v.k\<close>. On an object it yields the own property, or \<open>undefined\<close> when
  the object has none of that name; on \<open>undefined\<close> it throws a TypeError. A boolean
  or a string receiver is boxed and answers from its prototype (\<open>length\<close>,
  \<open>toString\<close>, ...): those values are outside \<open>jsval\<close>, so the model reports
  \<open>NotModelled\<close> there instead of inventing an answer.
\<close>

datatype js_error = TypeError | NotModelled

fun get_prop :: "jsval \<Rightarrow> string \<Rightarrow> js_error + jsval" where
  "get_prop (JObj ps) k = Inr (case map_of ps k of None \<Rightarrow> JUndefined | Some v \<Rightarrow> v)"
| "get_prop JUndefined k = Inl TypeError"
| "get_prop (JBool b) k = Inl NotModelled"
| "get_prop (JStr s) k = Inl NotModelled"

text \<open>A chain of member accesses \<open>v.k1.k2...\<close>; the first failure ends it.\<close>

fun get_path :: "jsval \<Rightarrow> string list \<Rightarrow> js_error + jsval" where
  "get_path v [] = Inr v"
| "get_path v (k # ks) = (case get_prop v k of Inl e \<Rightarrow> Inl e | Inr w \<Rightarrow> get_path w ks)"

text \<open>
  The declared fields of a value: every non-empty chain of property names that the
  literal writes, outer properties first.
\<close>

fun paths :: "jsval \<Rightarrow> string list list" where
  "paths (JObj ps) = concat (map (\<lambda>kv. [fst kv] # map ((#) (fst kv)) (paths (snd kv))) ps)"
| "paths _ = []"

text \<open>The scalar fields: the paths that end in a value that is not an object.\<close>

fun leaves :: "jsval \<Rightarrow> (string list \<times> jsval) list" where
  "leaves (JObj ps) =
     concat (map (\<lambda>kv. map (\<lambda>pv. (fst kv # fst pv, snd pv)) (leaves (snd kv))) ps)"
| "leaves v = [([], v)]"

fun is_object :: "jsval \<Rightarrow> bool" where
  "is_object (JObj ps) = True"
| "is_object _ = False"

fun is_string :: "jsval \<Rightarrow> bool" where
  "is_string (JStr s) = True"
| "is_string _ = False"

fun str_of :: "jsval \<Rightarrow> string" where
  "str_of (JStr s) = s"
| "str_of _ = []"

text \<open>\<open>Object.entries\<close>, and its split into scalar properties and nested records.\<close>

fun entries :: "jsval \<Rightarrow> (string \<times> jsval) list" where
  "entries (JObj ps) = ps"
| "entries _ = []"

definition scalar_fields :: "jsval \<Rightarrow> (string \<times> jsval) list" where
  "scalar_fields v = filter (\<lambda>kv. \<not> is_object (snd kv)) (entries v)"

definition record_fields :: "jsval \<Rightarrow> (string \<times> jsval) list" where
  "record_fields v = filter (\<lambda>kv. is_object (snd kv)) (entries v)"

definition string_fields :: "jsval \<Rightarrow> (string list \<times> string) list" where
  "string_fields v = map (\<lambda>pv. (fst pv, str_of (snd pv))) (filter (\<lambda>pv. is_string (snd pv)) (leaves v))"

definition other_fields :: "jsval \<Rightarrow> (string list \<times> jsval) list" where
  "other_fields v = filter (\<lambda>pv. \<not> is_string (snd pv)) (leaves v)"

subsection \<open>URL syntax\<close>

text \<open>
  The module only stores its URLs; parsing them is left to its consumers. An absolute
  URL with a scheme and a host is, in the generic syntax of RFC 3986,
  \<^verbatim>\<open>scheme "://" host [ ":" port ] [ ("/" | "?" | "#") ... ]\<close>
  where the scheme is a letter followed by letters, digits, \<open>+\<close>, \<open>-\<close> and \<open>.\<close>, the host
  is a non-empty run of letters, digits, \<open>-\<close>, \<open>.\<close>, \<open>_\<close> and \<open>~\<close>, and the port is a
  run of digits. User information and bracketed IPv6 hosts are not accepted: the
  parser is stricter than the RFC, never laxer.
\<close>

definition is_alpha :: "char \<Rightarrow> bool" where
  "is_alpha c = (c \<in> set ''abcdefghijklmnopqrstuvwxyzABCDEFGHIJKLMNOPQRSTUVWXYZ'')"

definition is_digit :: "char \<Rightarrow> bool" where
  "is_digit c = (c \<in> set ''0123456789'')"

definition is_scheme_char :: "char \<Rightarrow> bool" where
  "is_scheme_char c = (is_alpha c \<or> is_digit c \<or> c \<in> set ''+-.'')"

definition is_host_char :: "char \<Rightarrow> bool" where
  "is_host_char c = (is_alpha c \<or> is_digit c \<or> c \<in> set ''-._~'')"

fun valid_scheme :: "string \<Rightarrow> bool" where
  "valid_scheme [] = False"
| "valid_scheme (c # cs) = (is_alpha c \<and> list_all is_scheme_char cs)"

record url_parts =
  scheme :: string
  host :: string
  port :: "string option"
  tail :: string

definition parse_authority :: "string \<Rightarrow> (string \<times> string option) option" where
  "parse_authority a =
     (let h = takeWhile (\<lambda>c. c \<noteq> CHR '':'') a;
          r = dropWhile (\<lambda>c. c \<noteq> CHR '':'') a
      in if h \<noteq> [] \<and> list_all is_host_char h then
           (if r = [] then Some (h, None)
            else if list_all is_digit (tl r) then Some (h, Some (tl r))
            else None)
         else None)"

definition parse_url :: "string \<Rightarrow> url_parts option" where
  "parse_url s =
     (let sch = takeWhile (\<lambda>c. c \<noteq> CHR '':'') s;
          r = dropWhile (\<lambda>c. c \<noteq> CHR '':'') s
      in if valid_scheme sch \<and> take 3 r = ''://'' then
           (let b = drop 3 r;
                a = takeWhile (\<lambda>c. c \<notin> set ''/?#'') b;
                t = dropWhile (\<lambda>c. c \<notin> set ''/?#'') b
            in case parse_authority a of
                 None \<Rightarrow> None
               | Some (h, p) \<Rightarrow> Some \<lparr>scheme = sch, host = h, port = p, tail = t\<rparr>)
         else None)"

text \<open>The URL a field holds: the field is read, and its value parsed when it is a string.\<close>

definition url_of_field :: "jsval \<Rightarrow> string list \<Rightarrow> url_parts option" where
  "url_of_field v p = (case get_path v p of Inr (JStr s) \<Rightarrow> parse_url s | _ \<Rightarrow> None)"

text \<open>
  Local hosts: the name \<open>localhost\<close>, and the IPv4 loopback block 127.0.0.0/8 written
  as a dotted quad of decimal octets.
\<close>

fun split_on :: "char \<Rightarrow> string \<Rightarrow> string list" where
  "split_on d [] = [[]]"
| "split_on d (c # cs) =
     (if c = d then [] # split_on d cs
      else (case split_on d cs of [] \<Rightarrow> [[c]] | w # ws \<Rightarrow> (c # w) # ws))"

definition digit_val :: "char \<Rightarrow> nat" where
  "digit_val c = of_char c - of_char CHR ''0''"

definition decimal :: "string \<Rightarrow> nat" where
  "decimal ds = foldl (\<lambda>n c. 10 * n + digit_val c) 0 ds"

definition octet :: "string \<Rightarrow> nat option" where
  "octet ds =
     (if ds \<noteq> [] \<and> length ds \<le> 3 \<and> list_all is_digit ds \<and> decimal ds \<le> 255
      then Some (decimal ds) else None)"

definition ipv4_octets :: "string \<Rightarrow> nat list option" where
  "ipv4_octets h =
     (let parts = map octet (split_on CHR ''.'' h)
      in if length parts = 4 \<and> list_all (\<lambda>x. x \<noteq> None) parts
         then Some (map the parts) else None)"

definition is_local_host :: "string \<Rightarrow> bool" where
  "is_local_host h =
     (h = ''localhost'' \<or> (case ipv4_octets h of Some (a # _) \<Rightarrow> a = 127 | _ \<Rightarrow> False))"

subsection \<open>JSON text\<close>

text \<open>
  \<open>JSON.stringify\<close> and \<open>JSON.parse\<close> of ECMAScript (ECMA-262, the JSON object), on the
  values of \<open>jsval\<close>. A character of a string is a code unit below 256; the strings
  of the module are ASCII.

  \<open>quote\<close> is QuoteJSONString: the double quote, the backslash and the control
  characters are escaped, the control characters without a short form as
  \<open>\u00XX\<close> in lower-case hexadecimal.
\<close>

definition hex_digit :: "nat \<Rightarrow> char" where
  "hex_digit n = ''0123456789abcdef'' ! (n mod 16)"

definition escape_char :: "char \<Rightarrow> string" where
  "escape_char c =
     (if c = CHR 0x22 then [CHR 0x5C, CHR 0x22]
      else if c = CHR 0x5C then [CHR 0x5C, CHR 0x5C]
      else if c = CHR 0x08 then [CHR 0x5C, CHR ''b'']
      else if c = CHR 0x0C then [CHR 0x5C, CHR ''f'']
      else if c = CHR 0x0A then [CHR 0x5C, CHR ''n'']
      else if c = CHR 0x0D then [CHR 0x5C, CHR ''r'']
      else if c = CHR 0x09 then [CHR 0x5C, CHR ''t'']
      else if (of_char c :: nat) < 32 then
        [CHR 0x5C, CHR ''u'', CHR ''0'', CHR ''0'',
         hex_digit (of_char c div 16), hex_digit (of_char c mod 16)]
      else [c])"

definition quote :: "string \<Rightarrow> string" where
  "quote s = CHR 0x22 # concat (map escape_char s) @ [CHR 0x22]"

fun join_commas :: "string list \<Rightarrow> string" where
  "join_commas [] = []"
| "join_commas [x] = x"
| "join_commas (x # y # ys) = x @ CHR '','' # join_commas (y # ys)"

text \<open>
  \<open>JSON.stringify(v)\<close> with no replacer and no indentation. \<open>None\<close> is the result
  \<open>undefined\<close>, which is what \<open>undefined\<close> serialises to; a property whose value
  serialises to \<open>undefined\<close> is left out of its object.
\<close>

fun JSON_stringify :: "jsval \<Rightarrow> string option" where
  "JSON_stringify JUndefined = None"
| "JSON_stringify (JBool b) = Some (if b then ''true'' else ''false'')"
| "JSON_stringify (JStr s) = Some (quote s)"
| "JSON_stringify (JObj ps) =
     Some (CHR ''{'' #
           join_commas
             (concat (map (\<lambda>kv. case JSON_stringify (snd kv) of
                                   None \<Rightarrow> []
                                 | Some t \<Rightarrow> [quote (fst kv) @ CHR '':'' # t]) ps))
           @ ''}'')"

text \<open>
  \<open>JSON.parse(text)\<close> with no reviver, for the JSON grammar of objects, strings,
  \<open>true\<close> and \<open>false\<close>, with white space between tokens. \<open>None\<close> is a SyntaxError, or
  a text with a number, an array, \<open>null\<close> or a code unit above 255, which have no
  \<open>jsval\<close>: \<open>JSON_stringify\<close> never writes one. A repeated member name overwrites the
  earlier value in place, as property definition does.
\<close>

definition is_ws :: "char \<Rightarrow> bool" where
  "is_ws c = (c = CHR 0x20 \<or> c = CHR 0x09 \<or> c = CHR 0x0A \<or> c = CHR 0x0D)"

definition skip_ws :: "string \<Rightarrow> string" where
  "skip_ws s = dropWhile is_ws s"

definition hex_val :: "char \<Rightarrow> nat option" where
  "hex_val c =
     (if c \<in> set ''0123456789'' then Some (of_char c - 48)
      else if c \<in> set ''abcdef'' then Some (of_char c - 87)
      else if c \<in> set ''ABCDEF'' then Some (of_char c - 55)
      else None)"

definition unescape :: "char \<Rightarrow> char option" where
  "unescape e =
     (if e = CHR 0x22 then Some (CHR 0x22)
      else if e = CHR 0x5C then Some (CHR 0x5C)
      else if e = CHR ''/'' then Some (CHR ''/'')
      else if e = CHR ''b'' then Some (CHR 0x08)
      else if e = CHR ''f'' then Some (CHR 0x0C)
      else if e = CHR ''n'' then Some (CHR 0x0A)
      else if e = CHR ''r'' then Some (CHR 0x0D)
      else if e = CHR ''t'' then Some (CHR 0x09)
      else None)"

definition code_unit :: "char \<Rightarrow> char \<Rightarrow> char \<Rightarrow> char \<Rightarrow> char option" where
  "code_unit a b c d =
     (case (hex_val a, hex_val b, hex_val c, hex_val d) of
        (Some w, Some x, Some y, Some z) \<Rightarrow>
          if w = 0 \<and> x = 0 then Some (char_of (16 * y + z)) else None
      | _ \<Rightarrow> None)"

text \<open>
  Defining a property on the object being built: a name the object already has keeps
  its place and takes the new value, a new name is added at the end.
\<close>

fun set_prop :: "(string \<times> jsval) list \<Rightarrow> string \<Rightarrow> jsval \<Rightarrow> (string \<times> jsval) list" where
  "set_prop [] k v = [(k, v)]"
| "set_prop ((k', w) # ps) k v =
     (if k' = k then (k, v) # ps else (k', w) # set_prop ps k v)"

text \<open>The characters of a string token after its opening quote, and the text after it.\<close>

fun parse_chars :: "string \<Rightarrow> (string \<times> string) option" where
  "parse_chars [] = None"
| "parse_chars (c # cs) =
     (if c = CHR 0x22 then Some ([], cs)
      else if c = CHR 0x5C then
        (case cs of
           [] \<Rightarrow> None
         | e # r \<Rightarrow>
             if e = CHR ''u'' then
               (case r of
                  a # b # x # y # r' \<Rightarrow>
                    (case code_unit a b x y of
                       None \<Rightarrow> None
                     | Some u \<Rightarrow> map_option (\<lambda>tr. (u # fst tr, snd tr)) (parse_chars r'))
                | _ \<Rightarrow> None)
             else
               (case unescape e of
                  None \<Rightarrow> None
                | Some u \<Rightarrow> map_option (\<lambda>tr. (u # fst tr, snd tr)) (parse_chars r)))
      else if (of_char c :: nat) < 32 then None
      else map_option (\<lambda>tr. (c # fst tr, snd tr)) (parse_chars cs))"

text \<open>
  A value, and the members of an object after its opening brace. The first argument
  bounds the number of nested calls. Every call reads at least one character before
  the next, so a bound above the length of the text is never used up
  (\<open>parse_fuel\<close> below), and \<open>JSON_parse\<close> passes one.
\<close>

fun parse_value :: "nat \<Rightarrow> string \<Rightarrow> (jsval \<times> string) option"
  and parse_members ::
    "nat \<Rightarrow> (string \<times> jsval) list \<Rightarrow> string \<Rightarrow> (jsval \<times> string) option"
where
  "parse_value 0 s = None"
| "parse_value (Suc n) s =
     (case skip_ws s of
        [] \<Rightarrow> None
      | c # r \<Rightarrow>
          if c = CHR ''{'' then
            (case skip_ws r of
               [] \<Rightarrow> None
             | d # r' \<Rightarrow>
                 if d = CHR ''}'' then Some (JObj [], r') else parse_members n [] (d # r'))
          else if c = CHR 0x22 then
            map_option (\<lambda>tr. (JStr (fst tr), snd tr)) (parse_chars r)
          else if take 4 (c # r) = ''true'' then Some (JBool True, drop 4 (c # r))
          else if take 5 (c # r) = ''false'' then Some (JBool False, drop 5 (c # r))
          else None)"
| "parse_members 0 acc s = None"
| "parse_members (Suc n) acc s =
     (case skip_ws s of
        [] \<Rightarrow> None
      | c # r \<Rightarrow>
          if c \<noteq> CHR 0x22 then None
          else
            (case parse_chars r of
               None \<Rightarrow> None
             | Some (k, r1) \<Rightarrow>
                 (case skip_ws r1 of
                    [] \<Rightarrow> None
                  | c1 # r2 \<Rightarrow>
                      if c1 \<noteq> CHR '':'' then None
                      else
                        (case parse_value n r2 of
                           None \<Rightarrow> None
                         | Some (v, r3) \<Rightarrow>
                             (case skip_ws r3 of
                                [] \<Rightarrow> None
                              | c3 # r4 \<Rightarrow>
                                  if c3 = CHR '','' then
                                    parse_members n (set_prop acc k v) r4
                                  else if c3 = CHR ''}'' then
                                    Some (JObj (set_prop acc k v), r4)
                                  else None)))))"

definition JSON_parse :: "string \<Rightarrow> jsval option" where
  "JSON_parse s =
     (case parse_value (Suc (length s)) s of
        None \<Rightarrow> None
      | Some (v, r) \<Rightarrow> if skip_ws r = [] then Some v else None)"

text \<open>
  The values that \<open>JSON_stringify\<close> writes in full: no \<open>undefined\<close> at any depth, and no
  object with a repeated property name. \<open>member_text\<close> is the text of one member of an
  object.
\<close>

fun serialisable :: "jsval \<Rightarrow> bool" where
  "serialisable JUndefined = False"
| "serialisable (JBool b) = True"
| "serialisable (JStr s) = True"
| "serialisable (JObj ps) =
     (distinct (map fst ps) \<and> list_all (\<lambda>kv. serialisable (snd kv)) ps)"

definition member_text :: "string \<times> jsval \<Rightarrow> string" where
  "member_text kv = quote (fst kv) @ CHR '':'' # the (JSON_stringify (snd kv))"

section \<open>Shape of the record\<close>

text \<open>
  C1. The exported record has exactly the properties \<open>production\<close>, \<open>apiServerUrl\<close> and
  \<open>auth0\<close>, of types boolean, string and object; the object \<open>auth0\<close> has exactly the
  properties \<open>url\<close>, \<open>audience\<close>, \<open>clientId\<close> and \<open>callbackURL\<close>, all of type string.
  The type is given as the complete property list, so no property is missing and none
  is extra.
\<close>

theorem environment_fields_and_types:
  "keys environment = [''production'', ''apiServerUrl'', ''auth0'']
   \<and> type_of environment =
       TObject [
         (''production'', TBoolean),
         (''apiServerUrl'', TString),
         (''auth0'', TObject [
            (''url'', TString),
            (''audience'', TString),
            (''clientId'', TString),
            (''callbackURL'', TString)])]"
  by (simp add: environment_def)

text \<open>
  C2, as stated. The claim gives the top-level record five scalar fields next to its
  one nested record. The literal has two scalar properties at the top level
  (\<open>production\<close> and \<open>apiServerUrl\<close>), and six scalar fields in all, so neither way of
  counting gives five.
\<close>

theorem five_scalar_fields_counterexample:
  "length (scalar_fields environment) \<noteq> 5 \<and> length (leaves environment) \<noteq> 5"
  by (simp add: scalar_fields_def environment_def)

text \<open>
  C2, amended. The top-level record has two scalar fields and one nested record,
  \<open>auth0\<close>; the nested record has four scalar fields and no record of its own, which
  makes six scalar fields in all.
\<close>

theorem environment_field_counts:
  "map fst (scalar_fields environment) = [''production'', ''apiServerUrl'']
   \<and> map fst (record_fields environment) = [''auth0'']
   \<and> map (\<lambda>kv. map fst (scalar_fields (snd kv))) (record_fields environment)
       = [[''url'', ''audience'', ''clientId'', ''callbackURL'']]
   \<and> map (\<lambda>kv. record_fields (snd kv)) (record_fields environment) = [[]]
   \<and> length (leaves environment) = 6"
  by (simp add: scalar_fields_def record_fields_def environment_def)

text \<open>
  C3. The string-typed fields of the record are \<open>apiServerUrl\<close>, \<open>auth0.url\<close>,
  \<open>auth0.audience\<close>, \<open>auth0.clientId\<close> and \<open>auth0.callbackURL\<close>; each is present and
  its value is not the empty string. The only scalar field that is not a string is
  \<open>production\<close>, a boolean.
\<close>

theorem string_fields_nonempty:
  "map fst (string_fields environment) =
     [[''apiServerUrl''], [''auth0'', ''url''], [''auth0'', ''audience''],
      [''auth0'', ''clientId''], [''auth0'', ''callbackURL'']]
   \<and> list_all (\<lambda>ps. get_path environment (fst ps) = Inr (JStr (snd ps)) \<and> snd ps \<noteq> [])
        (string_fields environment)
   \<and> other_fields environment = [([''production''], JBool False)]"
  by (simp add: string_fields_def other_fields_def environment_def)

text \<open>
  C8. Reading a declared field never fails: for every chain of property names that
  the literal declares, the member accesses all succeed and the result is a value,
  not \<open>undefined\<close>.
\<close>

theorem declared_field_read_succeeds:
  "p \<in> set (paths environment) \<Longrightarrow>
     \<exists>v. get_path environment p = Inr v \<and> v \<noteq> JUndefined"
  by (auto simp add: environment_def)

theorem declared_field_read_succeeds_witness:
  "[''auth0'', ''clientId''] \<in> set (paths environment)
   \<and> (\<exists>v. get_path environment [''auth0'', ''clientId''] = Inr v \<and> v \<noteq> JUndefined)"
proof -
  have declared: "[''auth0'', ''clientId''] \<in> set (paths environment)"
    by (simp add: environment_def)
  from declared_field_read_succeeds [OF declared] declared show ?thesis
    by simp
qed

section \<open>The URLs of the record\<close>

lemmas url_syntax_defs =
  parse_url_def parse_authority_def is_alpha_def is_digit_def is_scheme_char_def
  is_host_char_def Let_def

lemmas local_host_defs =
  is_local_host_def ipv4_octets_def octet_def decimal_def digit_val_def is_digit_def Let_def

lemma parse_apiServerUrl:
  "parse_url ''http://127.0.0.1:5000'' =
     Some \<lparr>scheme = ''http'', host = ''127.0.0.1'', port = Some ''5000'', tail = []\<rparr>"
  by (simp add: url_syntax_defs)

lemma parse_callbackURL:
  "parse_url ''http://localhost:8100'' =
     Some \<lparr>scheme = ''http'', host = ''localhost'', port = Some ''8100'', tail = []\<rparr>"
  by (simp add: url_syntax_defs)

lemma parse_auth0_url: "parse_url ''dev-ya94ppfc.us'' = None"
  by (simp add: url_syntax_defs)

lemma parse_audience: "parse_url ''drinks'' = None"
  by (simp add: url_syntax_defs)

lemma parse_clientId: "parse_url ''Vna6pHZHZ9P1dvOeq6POJ2WB8lBsfY8G'' = None"
  by (simp add: url_syntax_defs)

text \<open>
  C4. The values of \<open>apiServerUrl\<close> and \<open>auth0.callbackURL\<close> parse as absolute URLs, each
  with a scheme and a non-empty host: \<open>http\<close>, host \<open>127.0.0.1\<close>, port 5000, and
  \<open>http\<close>, host \<open>localhost\<close>, port 8100.
\<close>

theorem url_fields_are_absolute_urls:
  "url_of_field environment [''apiServerUrl''] =
     Some \<lparr>scheme = ''http'', host = ''127.0.0.1'', port = Some ''5000'', tail = []\<rparr>
   \<and> url_of_field environment [''auth0'', ''callbackURL''] =
     Some \<lparr>scheme = ''http'', host = ''localhost'', port = Some ''8100'', tail = []\<rparr>"
  by (simp add: url_of_field_def environment_def parse_apiServerUrl parse_callbackURL)

text \<open>
  C9. The record is a development configuration: \<open>production\<close> is \<open>false\<close>,
  \<open>apiServerUrl\<close> is \<open>http://127.0.0.1:5000\<close> and \<open>auth0.callbackURL\<close> is
  \<open>http://localhost:8100\<close>; both URLs have the scheme \<open>http\<close>, and their hosts are a
  loopback address and \<open>localhost\<close>.
\<close>

theorem development_configuration:
  "get_path environment [''production''] = Inr (JBool False)
   \<and> get_path environment [''apiServerUrl''] = Inr (JStr ''http://127.0.0.1:5000'')
   \<and> get_path environment [''auth0'', ''callbackURL''] = Inr (JStr ''http://localhost:8100'')
   \<and> map_option scheme (url_of_field environment [''apiServerUrl'']) = Some ''http''
   \<and> map_option scheme (url_of_field environment [''auth0'', ''callbackURL'']) = Some ''http''
   \<and> map_option (\<lambda>u. is_local_host (host u)) (url_of_field environment [''apiServerUrl''])
       = Some True
   \<and> map_option (\<lambda>u. is_local_host (host u))
        (url_of_field environment [''auth0'', ''callbackURL'']) = Some True"
  by (simp add: url_of_field_def environment_def parse_apiServerUrl parse_callbackURL
      local_host_defs)

text \<open>
  C10. The value of \<open>auth0.url\<close> is \<open>dev-ya94ppfc.us\<close>. It has no \<open>:\<close>, so no scheme,
  and no \<open>/\<close>; it does not parse as an absolute URL. Of the string fields of the
  record, the ones that parse as absolute URLs are \<open>apiServerUrl\<close> and
  \<open>auth0.callbackURL\<close>, and no other.
\<close>

theorem auth0_url_is_not_a_url:
  "get_path environment [''auth0'', ''url''] = Inr (JStr ''dev-ya94ppfc.us'')
   \<and> CHR '':'' \<notin> set ''dev-ya94ppfc.us''
   \<and> CHR ''/'' \<notin> set ''dev-ya94ppfc.us''
   \<and> url_of_field environment [''auth0'', ''url''] = None
   \<and> map fst (filter (\<lambda>ps. parse_url (snd ps) \<noteq> None) (string_fields environment))
       = [[''apiServerUrl''], [''auth0'', ''callbackURL'']]"
  by (simp add: url_of_field_def string_fields_def environment_def parse_apiServerUrl
      parse_callbackURL parse_auth0_url parse_audience parse_clientId)

section \<open>Serialisation\<close>

subsection \<open>The parser reads what it is given\<close>

text \<open>
  Every successful call consumes text, and the result of a call does not depend on
  its bound once the bound is above the length of the text.
\<close>

lemma skip_ws_length: "length (skip_ws s) \<le> length s"
  by (simp add: skip_ws_def length_dropWhile_le)

lemma skip_ws_Cons_length: "skip_ws s = c # r \<Longrightarrow> length r < length s"
  using skip_ws_length [of s] by simp

lemma parse_chars_length: "parse_chars s = Some (t, r) \<Longrightarrow> length r < length s"
proof (induction s arbitrary: t rule: parse_chars.induct)
  case 1
  then show ?case by simp
next
  case (2 c cs)
  then show ?case
    by (fastforce split: if_splits list.splits option.splits)
qed

lemma parse_length:
  "parse_value n s = Some (v, r) \<Longrightarrow> length r < length s"
  "parse_members n acc s = Some (v, r) \<Longrightarrow> length r < length s"
proof (induction n s and n acc s arbitrary: v r and v r rule: parse_value_parse_members.induct)
  case (1 s)
  then show ?case by simp
next
  case (2 n s)
  show ?case
  proof (cases "skip_ws s")
    case Nil
    with "2.prems" show ?thesis by simp
  next
    case (Cons c r0)
    note s = this
    have r0: "length r0 < length s" using skip_ws_Cons_length [OF s] .
    show ?thesis
    proof (cases "c = CHR ''{''")
      case True
      note brace = this
      show ?thesis
      proof (cases "skip_ws r0")
        case Nil
        with "2.prems" s brace show ?thesis by simp
      next
        case (Cons d r')
        note r = this
        have r': "length (d # r') \<le> length r0" using skip_ws_length [of r0] r by simp
        show ?thesis
        proof (cases "d = CHR ''}''")
          case True
          with "2.prems" s brace r r' r0 show ?thesis by auto
        next
          case False
          with "2.prems" s brace r have "parse_members n [] (d # r') = Some (v, r)" by simp
          from "2.IH" [OF s brace r False this] r' r0 show ?thesis by simp
        qed
      qed
    next
      case False
      with "2.prems" s r0 show ?thesis
        by (auto split: if_splits dest!: parse_chars_length)
    qed
  qed
next
  case (3 acc s)
  then show ?case by simp
next
  case (4 n acc s)
  from "4.prems" obtain c r0 where s: "skip_ws s = c # r0"
    by (cases "skip_ws s") auto
  from "4.prems" s have q: "\<not> c \<noteq> CHR 0x22" by (auto split: if_splits)
  from "4.prems" s q obtain k r1 where k: "parse_chars r0 = Some (k, r1)"
    by (cases "parse_chars r0") auto
  from "4.prems" s q k obtain c1 r2 where r1: "skip_ws r1 = c1 # r2"
    by (cases "skip_ws r1") auto
  from "4.prems" s q k r1 have colon: "\<not> c1 \<noteq> CHR '':''" by (auto split: if_splits)
  from "4.prems" s q k r1 colon obtain w r3 where w: "parse_value n r2 = Some (w, r3)"
    by (cases "parse_value n r2") auto
  from "4.prems" s q k r1 colon w obtain c3 r4 where r3: "skip_ws r3 = c3 # r4"
    by (cases "skip_ws r3") auto
  have len: "length r4 < length s"
    using skip_ws_Cons_length [OF s] parse_chars_length [OF k] skip_ws_Cons_length [OF r1]
      "4.IH"(1) [OF s q k refl r1 colon w] skip_ws_Cons_length [OF r3]
    by simp
  show ?case
  proof (cases "c3 = CHR '',''")
    case True
    with "4.prems" s q k r1 colon w r3
    have "parse_members n (set_prop acc k w) r4 = Some (v, r)" by simp
    from "4.IH"(2) [OF s q k refl r1 colon w refl r3 True this] len show ?thesis by simp
  next
    case False
    with "4.prems" s q k r1 colon w r3 len show ?thesis by (auto split: if_splits)
  qed
qed


lemma parse_fuel:
  "length s < n \<Longrightarrow> length s < m \<Longrightarrow> parse_value n s = parse_value m s"
  "length s < n \<Longrightarrow> length s < m \<Longrightarrow> parse_members n acc s = parse_members m acc s"
proof (induction n s and n acc s arbitrary: m and m rule: parse_value_parse_members.induct)
  case (1 s)
  then show ?case by simp
next
  case (2 n s)
  from "2.prems" obtain m' where m: "m = Suc m'" by (cases m) auto
  show ?case
  proof (cases "skip_ws s")
    case Nil
    then show ?thesis by (simp add: m)
  next
    case (Cons c r0)
    note s = this
    have r0: "length r0 < length s" using skip_ws_Cons_length [OF s] .
    show ?thesis
    proof (cases "c = CHR ''{''")
      case True
      note brace = this
      show ?thesis
      proof (cases "skip_ws r0")
        case Nil
        with s brace show ?thesis by (simp add: m)
      next
        case (Cons d r')
        note r = this
        have r': "length (d # r') \<le> length r0" using skip_ws_length [of r0] r by simp
        show ?thesis
        proof (cases "d = CHR ''}''")
          case True
          with s brace r show ?thesis by (simp add: m)
        next
          case False
          have "parse_members n [] (d # r') = parse_members m' [] (d # r')"
            using "2.IH" [OF s brace r False, of m'] r' r0 "2.prems" m by simp
          with s brace r False show ?thesis by (simp add: m)
        qed
      qed
    next
      case False
      with s show ?thesis by (simp add: m)
    qed
  qed
next
  case (3 acc s)
  then show ?case by simp
next
  case (4 n acc s)
  from "4.prems" obtain m' where m: "m = Suc m'" by (cases m) auto
  show ?case
  proof (cases "skip_ws s")
    case Nil
    then show ?thesis by (simp add: m)
  next
    case (Cons c r0)
    note s = this
    show ?thesis
    proof (cases "c \<noteq> CHR 0x22")
      case True
      with s show ?thesis by (simp add: m)
    next
      case False
      note q = this
      show ?thesis
      proof (cases "parse_chars r0")
        case None
        with s q show ?thesis by (simp add: m)
      next
        case (Some kr)
        obtain k r1 where kr: "kr = (k, r1)" by (cases kr)
        note k = Some [unfolded kr]
        show ?thesis
        proof (cases "skip_ws r1")
          case Nil
          with s q k show ?thesis by (simp add: m)
        next
          case (Cons c1 r2)
          note r1 = this
          have r2: "length r2 < length s - 1"
            using skip_ws_Cons_length [OF s] parse_chars_length [OF k]
              skip_ws_Cons_length [OF r1] by simp
          show ?thesis
          proof (cases "c1 \<noteq> CHR '':''")
            case True
            with s q k r1 show ?thesis by (simp add: m)
          next
            case False
            note colon = this
            have pv: "parse_value n r2 = parse_value m' r2"
              using "4.IH"(1) [OF s q k refl r1 colon, of m'] r2 "4.prems" m by simp
            show ?thesis
            proof (cases "parse_value n r2")
              case None
              moreover from None pv have "parse_value m' r2 = None" by simp
              ultimately show ?thesis using s q k r1 colon by (simp add: m)
            next
              case (Some wr)
              obtain w r3 where wr: "wr = (w, r3)" by (cases wr)
              note w = Some [unfolded wr]
              from w pv have wm: "parse_value m' r2 = Some (w, r3)" by simp
              show ?thesis
              proof (cases "skip_ws r3")
                case Nil
                with w wm s q k r1 colon show ?thesis by (simp add: m)
              next
                case (Cons c3 r4)
                note r3 = this
                have r4: "length r4 < length s - 1"
                  using parse_length(1) [OF w] skip_ws_Cons_length [OF r3] r2 by simp
                show ?thesis
                proof (cases "c3 = CHR '',''")
                  case True
                  have "parse_members n (set_prop acc k w) r4
                        = parse_members m' (set_prop acc k w) r4"
                    using "4.IH"(2) [OF s q k refl r1 colon w refl r3 True, of m'] r4
                      "4.prems" m by simp
                  with w wm s q k r1 colon r3 True show ?thesis by (simp add: m)
                next
                  case False
                  with w wm s q k r1 colon r3 show ?thesis by (simp add: m)
                qed
              qed
            qed
          qed
        qed
      qed
    qed
  qed
qed

lemma JSON_parse_fuel:
  "length s < n \<Longrightarrow>
     JSON_parse s =
       (case parse_value n s of
          None \<Rightarrow> None
        | Some (v, r) \<Rightarrow> if skip_ws r = [] then Some v else None)"
  using parse_fuel(1) [of s "Suc (length s)" n] by (simp add: JSON_parse_def)

subsection \<open>Parsing a serialised value\<close>

text \<open>
  Parsing undoes serialising, for every string and so for every serialisable value,
  in particular for every object with the properties of \<open>environment\<close>, whatever its
  boolean and its strings.
\<close>

lemma hex_val_hex_digit: "k < 16 \<Longrightarrow> hex_val (hex_digit k) = Some k"
proof -
  have "list_all (\<lambda>k. hex_val (hex_digit k) = Some k) [0..<16]"
    by code_simp
  moreover assume "k < 16"
  ultimately show ?thesis
    by (simp add: list_all_iff)
qed

lemma code_unit_hex:
  assumes "(of_char c :: nat) < 32"
  shows "code_unit CHR ''0'' CHR ''0'' (hex_digit (of_char c div 16)) (hex_digit (of_char c mod 16))
         = Some c"
proof -
  have z: "hex_val CHR ''0'' = Some 0" by (simp add: hex_val_def)
  have hi: "hex_val (hex_digit (of_char c div 16)) = Some (of_char c div 16)"
    using assms by (intro hex_val_hex_digit) simp
  have lo: "hex_val (hex_digit (of_char c mod 16)) = Some (of_char c mod 16)"
    by (intro hex_val_hex_digit) simp
  show ?thesis by (simp add: code_unit_def z hi lo)
qed


lemma parse_chars_escape_char:
  assumes "parse_chars x = Some (t, r)"
  shows "parse_chars (escape_char c @ x) = Some (c # t, r)"
proof -
  consider (quote) "c = CHR 0x22" | (backslash) "c = CHR 0x5C"
    | (short) "c \<in> {CHR 0x08, CHR 0x0C, CHR 0x0A, CHR 0x0D, CHR 0x09}"
    | (control) "c \<noteq> CHR 0x22" "c \<noteq> CHR 0x5C"
        "c \<notin> {CHR 0x08, CHR 0x0C, CHR 0x0A, CHR 0x0D, CHR 0x09}" "(of_char c :: nat) < 32"
    | (plain) "c \<noteq> CHR 0x22" "c \<noteq> CHR 0x5C" "\<not> (of_char c :: nat) < 32"
    by blast
  then show ?thesis
  proof cases
    case quote
    with assms show ?thesis by (simp add: escape_char_def unescape_def)
  next
    case backslash
    with assms show ?thesis by (simp add: escape_char_def unescape_def)
  next
    case short
    with assms show ?thesis by (auto simp add: escape_char_def unescape_def)
  next
    case control
    with assms code_unit_hex [OF control(4)] show ?thesis
      by (simp add: escape_char_def)
  next
    case plain
    then have "escape_char c = [c]"
      by (auto simp add: escape_char_def)
    with assms plain show ?thesis by simp
  qed
qed

lemma parse_chars_escaped:
  "parse_chars (concat (map escape_char s) @ CHR 0x22 # rest) = Some (s, rest)"
  by (induction s) (simp_all add: parse_chars_escape_char)

lemma parse_chars_quote:
  "quote s @ rest = CHR 0x22 # x \<Longrightarrow> parse_chars x = Some (s, rest)"
  by (auto simp add: quote_def parse_chars_escaped)


lemma skip_ws_Cons: "\<not> is_ws c \<Longrightarrow> skip_ws (c # r) = c # r"
  by (simp add: skip_ws_def)

lemma set_prop_fresh: "k \<notin> fst ` set acc \<Longrightarrow> set_prop acc k v = acc @ [(k, v)]"
  by (induction acc) auto

lemma serialisable_stringify:
  "serialisable v \<Longrightarrow> \<exists>c t. JSON_stringify v = Some (c # t) \<and> c \<in> set ''{\"tf''"
  by (cases v) (simp_all add: quote_def)

lemma members_text:
  "list_all (\<lambda>kv. serialisable (snd kv)) ps \<Longrightarrow>
     concat (map (\<lambda>kv. case JSON_stringify (snd kv) of
                          None \<Rightarrow> []
                        | Some t \<Rightarrow> [quote (fst kv) @ CHR '':'' # t]) ps)
     = map member_text ps"
proof (induction ps)
  case Nil
  then show ?case by simp
next
  case (Cons kv ps)
  from Cons.prems obtain t where "JSON_stringify (snd kv) = Some t"
    using serialisable_stringify [of "snd kv"] by auto
  with Cons show ?case by (simp add: member_text_def)
qed

lemma parse_members_text:
  assumes sub: "\<And>kv t rest n. kv \<in> set ps \<Longrightarrow> JSON_stringify (snd kv) = Some t \<Longrightarrow>
             length (t @ rest) < n \<Longrightarrow> parse_value n (t @ rest) = Some (snd kv, rest)"
    and "ps \<noteq> []"
    and "list_all (\<lambda>kv. serialisable (snd kv)) ps"
    and "distinct (map fst acc @ map fst ps)"
    and "length (join_commas (map member_text ps) @ CHR ''}'' # rest) < n"
  shows "parse_members n acc (join_commas (map member_text ps) @ CHR ''}'' # rest)
         = Some (JObj (acc @ ps), rest)"
  using assms
proof (induction ps arbitrary: acc n)
  case Nil
  then show ?case by simp
next
  case (Cons kv ps)
  obtain k v where kv: "kv = (k, v)" by (cases kv)
  from Cons.prems(3) kv obtain c t0 where t: "JSON_stringify v = Some (c # t0)"
    using serialisable_stringify [of v] by auto
  define x where "x = (if ps = [] then [] else CHR '','' # join_commas (map member_text ps))
                      @ CHR ''}'' # rest"
  have layout: "join_commas (map member_text (kv # ps)) @ CHR ''}'' # rest
              = quote k @ CHR '':'' # (c # t0) @ x"
    by (cases ps) (simp_all add: x_def member_text_def kv t)
  obtain q where q: "quote k @ CHR '':'' # (c # t0) @ x = CHR 0x22 # q"
    by (simp add: quote_def)
  have key: "parse_chars q = Some (k, CHR '':'' # (c # t0) @ x)"
    using parse_chars_quote [OF q] .
  from Cons.prems(5) obtain n' where n: "n = Suc n'" by (cases n) auto
  have "length q < length (join_commas (map member_text (kv # ps)) @ CHR ''}'' # rest)"
    using layout q by simp
  moreover have "length ((c # t0) @ x) < length q"
    using parse_chars_length [OF key] by simp
  ultimately have fuel: "length ((c # t0) @ x) < n'"
    using Cons.prems(5) n by simp
  have val: "parse_value n' ((c # t0) @ x) = Some (v, x)"
    using Cons.prems(1) [of kv "c # t0" x n'] t fuel kv by simp
  have fresh: "set_prop acc k v = acc @ [(k, v)]"
    using Cons.prems(4) kv by (intro set_prop_fresh) auto
  have start: "parse_members n acc (join_commas (map member_text (kv # ps)) @ CHR ''}'' # rest)
               = parse_members (Suc n') acc (CHR 0x22 # q)"
    by (simp only: layout q n)
  have step: "parse_members (Suc n') acc (CHR 0x22 # q) =
                (case skip_ws x of
                   [] \<Rightarrow> None
                 | c3 # r4 \<Rightarrow>
                     if c3 = CHR '','' then parse_members n' (set_prop acc k v) r4
                     else if c3 = CHR ''}'' then Some (JObj (set_prop acc k v), r4)
                     else None)"
    using key val by (simp add: skip_ws_Cons is_ws_def)
  show ?case
  proof (cases "ps = []")
    case True
    then have x: "x = CHR ''}'' # rest" by (simp add: x_def)
    show ?thesis
      unfolding start step x using True by (simp add: kv fresh skip_ws_Cons is_ws_def)
  next
    case False
    then have x: "x = CHR '','' # join_commas (map member_text ps) @ CHR ''}'' # rest"
      by (simp add: x_def)
    have "parse_members n' (acc @ [(k, v)]) (join_commas (map member_text ps) @ CHR ''}'' # rest)
          = Some (JObj ((acc @ [(k, v)]) @ ps), rest)"
    proof (rule Cons.IH)
      show "ps \<noteq> []" by fact
      show "list_all (\<lambda>kv. serialisable (snd kv)) ps" using Cons.prems(3) by simp
      show "distinct (map fst (acc @ [(k, v)]) @ map fst ps)"
        using Cons.prems(4) kv by auto
      show "length (join_commas (map member_text ps) @ CHR ''}'' # rest) < n'"
        using fuel x by simp
      show "parse_value m (t @ r) = Some (snd e, r)"
        if "e \<in> set ps" "JSON_stringify (snd e) = Some t" "length (t @ r) < m" for e t r m
        using Cons.prems(1) [of e t r m] that by simp
    qed
    then show ?thesis
      unfolding start step x by (simp add: kv fresh skip_ws_Cons is_ws_def)
  qed
qed


lemma parse_value_stringify:
  "serialisable v \<Longrightarrow> JSON_stringify v = Some t \<Longrightarrow> length (t @ rest) < n \<Longrightarrow>
     parse_value n (t @ rest) = Some (v, rest)"
proof (induction v arbitrary: t rest n rule: serialisable.induct)
  case 1
  then show ?case by simp
next
  case (2 b)
  from "2.prems"(3) obtain n' where "n = Suc n'" by (cases n) auto
  with "2.prems" show ?case
    by (auto simp add: skip_ws_Cons is_ws_def)
next
  case (3 s)
  from "3.prems"(3) obtain n' where "n = Suc n'" by (cases n) auto
  with "3.prems" show ?case
    by (auto simp add: quote_def skip_ws_Cons is_ws_def parse_chars_escaped)
next
  case (4 ps)
  from "4.prems"(3) obtain n' where n: "n = Suc n'" by (cases n) auto
  from "4.prems"(1) have ser: "list_all (\<lambda>kv. serialisable (snd kv)) ps"
    and dist: "distinct (map fst ps)" by simp_all
  from "4.prems"(2) have t: "t = CHR ''{'' # join_commas (map member_text ps) @ ''}''"
    by (simp add: members_text [OF ser])
  show ?case
  proof (cases ps)
    case Nil
    with t n show ?thesis by (simp add: skip_ws_Cons is_ws_def)
  next
    case (Cons kv ps')
    have sub: "parse_value m (u @ r) = Some (snd e, r)"
      if "e \<in> set ps" "JSON_stringify (snd e) = Some u" "length (u @ r) < m" for e u r m
      using "4.IH" [OF that(1) _ that(2) that(3)] ser that(1) by (simp add: list_all_iff)
    have members: "parse_members n' [] (join_commas (map member_text ps) @ CHR ''}'' # rest)
                   = Some (JObj ([] @ ps), rest)"
    proof (rule parse_members_text)
      show "ps \<noteq> []" using Cons by simp
      show "list_all (\<lambda>kv. serialisable (snd kv)) ps" by fact
      show "distinct (map fst [] @ map fst ps)" using dist by simp
      show "length (join_commas (map member_text ps) @ CHR ''}'' # rest) < n'"
        using "4.prems"(3) t n by simp
      show "parse_value m (u @ r) = Some (snd e, r)"
        if "e \<in> set ps" "JSON_stringify (snd e) = Some u" "length (u @ r) < m" for e u r m
        using sub that .
    qed
    obtain q where q: "join_commas (map member_text ps) @ CHR ''}'' # rest = CHR 0x22 # q"
      using Cons by (cases ps') (simp_all add: member_text_def quote_def)
    from members show ?thesis
      unfolding t n by (simp add: q skip_ws_Cons is_ws_def)
  qed
qed

lemma serialisable_round_trip:
  assumes "serialisable v"
  shows "Option.bind (JSON_stringify v) JSON_parse = Some v"
proof -
  from assms obtain t where t: "JSON_stringify v = Some t"
    using serialisable_stringify [of v] by auto
  have "parse_value (Suc (length t)) (t @ []) = Some (v, [])"
    using assms t by (rule parse_value_stringify) simp
  with t show ?thesis
    by (simp add: JSON_parse_def skip_ws_def)
qed

lemma record_round_trip:
  "Option.bind
     (JSON_stringify
        (JObj [
           (''production'', JBool b),
           (''apiServerUrl'', JStr s1),
           (''auth0'', JObj [
              (''url'', JStr s2),
              (''audience'', JStr s3),
              (''clientId'', JStr s4),
              (''callbackURL'', JStr s5)])]))
     JSON_parse
   = Some
       (JObj [
          (''production'', JBool b),
          (''apiServerUrl'', JStr s1),
          (''auth0'', JObj [
             (''url'', JStr s2),
             (''audience'', JStr s3),
             (''clientId'', JStr s4),
             (''callbackURL'', JStr s5)])])"
  by (rule serialisable_round_trip) simp

text \<open>
  The round trip is not the identity on every value: a property that holds
  \<open>undefined\<close> is not written, so it is gone after parsing.
\<close>

lemma undefined_property_is_dropped:
  "Option.bind (JSON_stringify (JObj [(''a'', JUndefined), (''b'', JBool True)])) JSON_parse
   = Some (JObj [(''b'', JBool True)])"
  by code_simp

lemma stringify_environment:
  \<open>JSON_stringify environment =
     Some ''{"production":false,"apiServerUrl":"http://127.0.0.1:5000","auth0":{"url":"dev-ya94ppfc.us","audience":"drinks","clientId":"Vna6pHZHZ9P1dvOeq6POJ2WB8lBsfY8G","callbackURL":"http://localhost:8100"}}''\<close>
  by (simp add: environment_def quote_def escape_char_def)

lemma parse_environment_text:
  \<open>JSON_parse
     ''{"production":false,"apiServerUrl":"http://127.0.0.1:5000","auth0":{"url":"dev-ya94ppfc.us","audience":"drinks","clientId":"Vna6pHZHZ9P1dvOeq6POJ2WB8lBsfY8G","callbackURL":"http://localhost:8100"}}''
   = Some environment\<close>
  by code_simp

text \<open>
  C5. Serialising the record to JSON gives the text below, and parsing that text gives
  back the record: the same property names in the same order, with the same values.
\<close>

theorem json_round_trip:
  \<open>JSON_stringify environment =
     Some ''{"production":false,"apiServerUrl":"http://127.0.0.1:5000","auth0":{"url":"dev-ya94ppfc.us","audience":"drinks","clientId":"Vna6pHZHZ9P1dvOeq6POJ2WB8lBsfY8G","callbackURL":"http://localhost:8100"}}''
   \<and> Option.bind (JSON_stringify environment) JSON_parse = Some environment\<close>
  by (simp add: stringify_environment parse_environment_text)

end
